theory Spec2Isabelle
  imports Main "HOL-Library.Sublist" "HOL-Library.Multiset" "HOL-Library.AList"
begin

section \<open>ByteHunter: a case-insensitive search over a file tree\<close>

text \<open>
  The development embeds \<^verbatim>\<open>main.py\<close>: the path filter \<^verbatim>\<open>is_file_searchable\<close>, the
  walker \<^verbatim>\<open>collect_files\<close>, the scanner \<^verbatim>\<open>search_file\<close>, the report writer
  \<^verbatim>\<open>write_to_csv\<close> and the orchestrator \<^verbatim>\<open>main\<close>. The library calls the program makes
  (\<^verbatim>\<open>pathlib\<close>, \<^verbatim>\<open>os.walk\<close>, text-mode file reading, the dictionary and the thread pool)
  are modelled by the functions of the first subsections. The regular-expression
  engine behind \<^verbatim>\<open>re.finditer\<close> is a parameter of the model, except on literal ASCII
  patterns and ASCII lines, where the search is written out.
\<close>

subsection \<open>Paths\<close>

text \<open>
  A \<^verbatim>\<open>pathlib.Path\<close> is its tuple of components (\<^verbatim>\<open>PurePath.parts\<close>): \<^verbatim>\<open>Path("./")\<close> is
  the empty tuple and \<^verbatim>\<open>Path("sub/a.txt")\<close> is \<open>[''sub'', ''a.txt'']\<close>. Two paths are equal
  when their components are, and \<^verbatim>\<open>str\<close> renders the components one-to-one, so a path
  also stands for its string.
\<close>

type_synonym path = "string list"

text \<open>\<^verbatim>\<open>Path(root)/name\<close>\<close>

definition joinpath :: "path \<Rightarrow> string \<Rightarrow> path" where
  "joinpath root name = root @ [name]"

text \<open>
  \<^verbatim>\<open>file_path.is_relative_to(other)\<close>: \<^verbatim>\<open>other\<close> is the path itself or one of its parents,
  a comparison of whole components.
\<close>

definition is_relative_to :: "path \<Rightarrow> path \<Rightarrow> bool" where
  "is_relative_to file_path other = prefix other file_path"

text \<open>\<^verbatim>\<open>name.rfind(c)\<close>, with \<open>None\<close> for Python's \<open>-1\<close>.\<close>

fun rfind :: "char \<Rightarrow> string \<Rightarrow> nat option" where
  "rfind c [] = None"
| "rfind c (x # xs) =
     (case rfind c xs of
        Some i \<Rightarrow> Some (Suc i)
      | None \<Rightarrow> if x = c then Some 0 else None)"

text \<open>
  \<^verbatim>\<open>file_path.suffix\<close>: the last component from its last dot on, unless that dot is the
  first or the last character of the component.
\<close>

definition path_suffix :: "path \<Rightarrow> string" where
  "path_suffix file_path =
     (let name = (if file_path = [] then [] else last file_path)
      in case rfind (CHR ''.'') name of
           None \<Rightarrow> []
         | Some i \<Rightarrow> if 0 < i \<and> i + 1 < length name then drop i name else [])"

subsection \<open>Files and text-mode reading\<close>

text \<open>
  The exceptions the program catches: \<^verbatim>\<open>UnicodeDecodeError\<close>, which the path filter tells
  apart, and every other \<^verbatim>\<open>Exception\<close>, here an \<^verbatim>\<open>OSError\<close> of \<^verbatim>\<open>open\<close> or \<^verbatim>\<open>read\<close> and
  the \<^verbatim>\<open>re.error\<close> of the regular-expression engine.
\<close>

datatype exn = UnicodeDecodeError | OSError | ReError

text \<open>
  A text-mode file is read and decoded one chunk of bytes at a time. A chunk either
  decodes to text or makes the read raise; a chunk that holds a byte sequence invalid in
  UTF-8 raises \<^verbatim>\<open>UnicodeDecodeError\<close> and delivers none of its characters. CPython reads
  chunks of 8192 bytes. Line ends are already translated to the newline character.
\<close>

datatype chunk = Text string | Raises exn

text \<open>
  The file tree below the working directory: a regular file with its chunks, an entry
  that \<^verbatim>\<open>open\<close> refuses, or a directory with its entries in listing order.
\<close>

datatype node = File "chunk list" | NoAccess | Dir "(string \<times> node) list"

fun lookup :: "node \<Rightarrow> path \<Rightarrow> node option"
  and lookup_entries :: "(string \<times> node) list \<Rightarrow> string \<Rightarrow> path \<Rightarrow> node option" where
  "lookup n [] = Some n"
| "lookup (Dir es) (x # p) = lookup_entries es x p"
| "lookup (File cs) (x # p) = None"
| "lookup NoAccess (x # p) = None"
| "lookup_entries [] x p = None"
| "lookup_entries ((name, n) # es) x p =
     (if name = x then lookup n p else lookup_entries es x p)"

text \<open>\<^verbatim>\<open>file_path.open('r', encoding='utf-8')\<close>\<close>

definition open_file :: "node \<Rightarrow> path \<Rightarrow> exn + chunk list" where
  "open_file fs file_path =
     (case lookup fs file_path of
        Some (File cs) \<Rightarrow> Inr cs
      | _ \<Rightarrow> Inl OSError)"

text \<open>
  \<^verbatim>\<open>file.read(n)\<close> on a freshly opened file: chunks are read and decoded until \<open>n\<close>
  characters are there or the file ends.
\<close>

fun read_chars :: "nat \<Rightarrow> chunk list \<Rightarrow> exn + string" where
  "read_chars n [] = Inr []"
| "read_chars n (Raises e # cs) = (if n = 0 then Inr [] else Inl e)"
| "read_chars n (Text s # cs) =
     (if n \<le> length s then Inr (take n s)
      else case read_chars (n - length s) cs of
             Inl e \<Rightarrow> Inl e
           | Inr r \<Rightarrow> Inr (s @ r))"

definition newline :: char where
  "newline = CHR ''\<newline>''"

text \<open>
  The lines completed by the text \<open>s\<close> after the pending, unfinished line \<open>cur\<close>, and the
  new pending line. A line keeps its newline.
\<close>

fun lines_of :: "string \<Rightarrow> string \<Rightarrow> string list \<times> string" where
  "lines_of cur [] = ([], cur)"
| "lines_of cur (c # s) =
     (if c = newline
      then (case lines_of [] s of (ls, pending) \<Rightarrow> ((cur @ [c]) # ls, pending))
      else lines_of (cur @ [c]) s)"

text \<open>
  \<^verbatim>\<open>for line in file\<close>: the lines the loop receives and the exception that ends it, if
  any. A line is handed out as soon as the decoded text holds its newline; a further
  chunk is read only when the pending text has no complete line, the end of the file
  hands out the pending text, and a raising chunk loses it.
\<close>

fun read_lines :: "string \<Rightarrow> chunk list \<Rightarrow> string list \<times> exn option" where
  "read_lines pending [] = ((if pending = [] then [] else [pending]), None)"
| "read_lines pending (Raises e # cs) = ([], Some e)"
| "read_lines pending (Text s # cs) =
     (case lines_of pending s of
        (ls, pending') \<Rightarrow>
          (case read_lines pending' cs of (ls', err) \<Rightarrow> (ls @ ls', err)))"


subsection \<open>Case-insensitive search of a line\<close>

text \<open>
  Lower case of an ASCII character. The search below applies it to ASCII characters
  only, where it is what \<^verbatim>\<open>re.IGNORECASE\<close> compares.
\<close>

definition ascii_lower :: "char \<Rightarrow> char" where
  "ascii_lower c =
     (let n = (of_char c :: nat)
      in if 65 \<le> n \<and> n \<le> 90 then char_of (n + 32) else c)"

text \<open>The pattern, read as literal characters, matches the start of the text.\<close>

definition match_here :: "string \<Rightarrow> string \<Rightarrow> bool" where
  "match_here pat s =
     (length pat \<le> length s
      \<and> map ascii_lower (take (length pat) s) = map ascii_lower pat)"

text \<open>
  The search for a non-empty sequence of literal characters from offset \<open>pos\<close>, with \<open>s\<close>
  the rest of the line there: it looks for a match at the current position, and after
  a match it goes on behind the end of that match.
\<close>

function literal_scan_from :: "string \<Rightarrow> nat \<Rightarrow> string \<Rightarrow> nat list" where
  "literal_scan_from pat pos s =
     (if pat = [] \<or> s = [] then []
      else if match_here pat s
      then pos # literal_scan_from pat (pos + length pat) (drop (length pat) s)
      else literal_scan_from pat (pos + 1) (tl s))"
  by pat_completeness auto
termination
  by (relation "measure (\<lambda>(pat, pos, s). length s)") auto

declare literal_scan_from.simps [simp del]

text \<open>
  The start offsets of the matches of a sequence of literal characters in a line. The
  empty sequence matches, with an empty match, at every offset of the line and at its
  end.
\<close>

definition literal_scan :: "string \<Rightarrow> string \<Rightarrow> nat list" where
  "literal_scan pat line =
     (if pat = [] then [0 ..< length line + 1] else literal_scan_from pat 0 line)"

definition is_ascii :: "string \<Rightarrow> bool" where
  "is_ascii s = list_all (\<lambda>c. (of_char c :: nat) < 128) s"

text \<open>The characters that are operators in a regular expression.\<close>

definition metachars :: string where
  "metachars = ''.^$*+?{}[]|()'' @ [CHR 0x5C]"

text \<open>A pattern that \<^verbatim>\<open>re\<close> reads as a sequence of literal ASCII characters.\<close>

definition literal_pattern :: "string \<Rightarrow> bool" where
  "literal_pattern pat = (is_ascii pat \<and> list_all (\<lambda>c. c \<notin> set metachars) pat)"

text \<open>
  The regular-expression engine is not part of the program. An \<open>engine\<close> stands for
  it: given a pattern and a line it raises (\<^verbatim>\<open>re.error\<close> for a pattern it cannot compile)
  or gives the start offsets of the matches it finds.
\<close>

type_synonym engine = "string \<Rightarrow> string \<Rightarrow> exn + nat list"

text \<open>
  \<^verbatim>\<open>[match.start() for match in re.finditer(pat, line, re.IGNORECASE)]\<close>. For a pattern
  of literal ASCII characters and an ASCII line the matches are those of the literal
  search. For every other pattern or line the result is the engine's: the model
  says nothing of its own about regular-expression operators, about patterns that do
  not compile, or about case folding beyond ASCII.
\<close>

definition finditer :: "engine \<Rightarrow> string \<Rightarrow> string \<Rightarrow> exn + nat list" where
  "finditer engine pat line =
     (if literal_pattern pat \<and> is_ascii line then Inr (literal_scan pat line)
      else engine pat line)"

text \<open>
  A value for the engine argument of the closed examples below. Their terms and lines
  are literal ASCII, so the engine is never asked there and every engine gives the
  same result (lemma \<open>local_results_any_engine\<close>); this one would raise \<^verbatim>\<open>re.error\<close>.
\<close>

definition unused_engine :: engine where
  "unused_engine pat line = Inl ReError"


subsection \<open>Configuration and program state\<close>

record config =
  SEARCH_TERM :: string
  DIRECTORIES_TO_SEARCH :: "path list"
  EXCLUDE_DIRECTORIES :: "path set"
  INCLUDE_FILE_TYPES :: "string list"
  EXCLUDE_FILE_TYPES :: "string list"
  NUM_THREADS :: nat

text \<open>A match: line number, start offset, end offset.\<close>

type_synonym match_record = "int \<times> int \<times> int"

text \<open>The two messages the program prints about a file it cannot read.\<close>

datatype event = Warning path exn | ErrorReading path exn

text \<open>
  \<^verbatim>\<open>results_dict\<close> is a Python dictionary: it keeps its keys in insertion order, and
  assigning to a key it has replaces the value in place (\<open>AList.update\<close>). The state
  is the dictionary and the printed messages.
\<close>

record state =
  results_dict :: "(path \<times> match_record list) list"
  stdout :: "event list"

subsection \<open>The path filter\<close>

definition is_file_searchable :: "config \<Rightarrow> node \<Rightarrow> path \<Rightarrow> bool \<times> event list" where
  "is_file_searchable cfg fs file_path =
     (if \<exists>excl_dir \<in> EXCLUDE_DIRECTORIES cfg. is_relative_to file_path excl_dir
      then (False, [])
      else if INCLUDE_FILE_TYPES cfg \<noteq> []
              \<and> path_suffix file_path \<notin> set (INCLUDE_FILE_TYPES cfg)
      then (False, [])
      else if path_suffix file_path \<in> set (EXCLUDE_FILE_TYPES cfg)
      then (False, [])
      else (case (case open_file fs file_path of
                    Inl e \<Rightarrow> Inl e
                  | Inr file \<Rightarrow> read_chars 1024 file) of
              Inr text \<Rightarrow> (True, [])
            | Inl UnicodeDecodeError \<Rightarrow> (False, [])
            | Inl e \<Rightarrow> (False, [Warning file_path e])))"


subsection \<open>The scanner\<close>

text \<open>
  The records of one line, lines 72 to 77 of \<^verbatim>\<open>search_file\<close>, or the exception that
  \<^verbatim>\<open>re.finditer\<close> raises.
\<close>

definition scan_line :: "engine \<Rightarrow> string \<Rightarrow> int \<Rightarrow> string \<Rightarrow> exn + match_record list" where
  "scan_line engine term line_number line =
     (case finditer engine term line of
        Inl e \<Rightarrow> Inl e
      | Inr occurrences \<Rightarrow>
          Inr (map (\<lambda>pos. (line_number, int pos, int pos + int (length term))) occurrences))"

text \<open>
  The loop over the lines; \<open>line_number\<close> is the counter before the line is read, and
  it is incremented first. An exception ends the loop, and the records appended
  before it stay in the list.
\<close>

fun scan_lines ::
  "engine \<Rightarrow> string \<Rightarrow> int \<Rightarrow> string list \<Rightarrow> match_record list \<times> exn option" where
  "scan_lines engine term line_number [] = ([], None)"
| "scan_lines engine term line_number (line # rest) =
     (case scan_line engine term (line_number + 1) line of
        Inl e \<Rightarrow> ([], Some e)
      | Inr records \<Rightarrow>
          (case scan_lines engine term (line_number + 1) rest of
             (found, err) \<Rightarrow> (records @ found, err)))"

text \<open>
  The \<^verbatim>\<open>try\<close> block of \<^verbatim>\<open>search_file\<close>: the value of \<^verbatim>\<open>local_results\<close> when the block is
  left, and the exception caught, if any. The lines are read one by one, so an
  exception of the search comes before the exception of a later read.
\<close>

definition local_results ::
  "engine \<Rightarrow> string \<Rightarrow> node \<Rightarrow> path \<Rightarrow> match_record list \<times> exn option" where
  "local_results engine term fs file_path =
     (case open_file fs file_path of
        Inl e \<Rightarrow> ([], Some e)
      | Inr file \<Rightarrow>
          (case read_lines [] file of
             (ls, read_err) \<Rightarrow>
               (case scan_lines engine term 0 ls of
                  (found, None) \<Rightarrow> (found, read_err)
                | (found, Some e) \<Rightarrow> (found, Some e))))"

text \<open>Lines 81 to 83, run under the lock: the result store's \<^verbatim>\<open>record\<close> operation.\<close>

definition store_results ::
  "path \<Rightarrow> match_record list \<Rightarrow> (path \<times> match_record list) list
     \<Rightarrow> (path \<times> match_record list) list" where
  "store_results file_path matches d =
     (if matches \<noteq> [] then AList.update file_path matches d else d)"

definition search_file :: "engine \<Rightarrow> config \<Rightarrow> node \<Rightarrow> path \<Rightarrow> state \<Rightarrow> state" where
  "search_file engine cfg fs file_path st =
     (case local_results engine (SEARCH_TERM cfg) fs file_path of
        (matches, err) \<Rightarrow>
          \<lparr>results_dict = store_results file_path matches (results_dict st),
           stdout = (case err of
                       None \<Rightarrow> stdout st
                     | Some e \<Rightarrow> stdout st @ [ErrorReading file_path e])\<rparr>)"

subsection \<open>The report\<close>

text \<open>
  A row of the report: file path, occurrence count, positions. \<^verbatim>\<open>write_to_csv\<close> writes one
  row for each entry of \<^verbatim>\<open>results_dict\<close>, in the order of the dictionary; the positions
  column is the list that \<^verbatim>\<open>str\<close> renders.
\<close>

type_synonym row = "path \<times> int \<times> match_record list"

definition write_to_csv :: "(path \<times> match_record list) list \<Rightarrow> row list" where
  "write_to_csv d =
     map (\<lambda>(file_path, positions). (file_path, int (length positions), positions)) d"

subsection \<open>The walker\<close>

definition is_dir :: "node \<Rightarrow> bool" where
  "is_dir n = (case n of Dir es \<Rightarrow> True | _ \<Rightarrow> False)"

text \<open>
  \<^verbatim>\<open>os.walk(root_dir, topdown=True)\<close> with the pruning of line 114: the files of a
  directory are yielded first, then each subdirectory that is not itself a member of
  \<^verbatim>\<open>EXCLUDE_DIRECTORIES\<close> is walked in turn.
\<close>

fun walk :: "path set \<Rightarrow> path \<Rightarrow> node \<Rightarrow> path list"
  and walk_dirs :: "path set \<Rightarrow> path \<Rightarrow> (string \<times> node) list \<Rightarrow> path list" where
  "walk excl root (Dir es) =
     map (joinpath root) (map fst (filter (\<lambda>(name, n). \<not> is_dir n) es))
     @ walk_dirs excl root es"
| "walk excl root (File cs) = []"
| "walk excl root NoAccess = []"
| "walk_dirs excl root [] = []"
| "walk_dirs excl root ((d, n) # es) =
     (if is_dir n \<and> joinpath root d \<notin> excl then walk excl (joinpath root d) n else [])
     @ walk_dirs excl root es"

definition collect_files :: "config \<Rightarrow> node \<Rightarrow> path \<Rightarrow> path list" where
  "collect_files cfg fs root_dir =
     (case lookup fs root_dir of
        Some n \<Rightarrow> walk (EXCLUDE_DIRECTORIES cfg) root_dir n
      | None \<Rightarrow> [])"

subsection \<open>The orchestrator\<close>

text \<open>
  The two thread pools run their tasks in an order of their own. \<open>done_filter\<close> is the
  order in which the filter tasks complete (\<^verbatim>\<open>as_completed\<close>), \<open>done_scan\<close> the order in
  which the scan tasks enter the locked section of \<^verbatim>\<open>search_file\<close>; each is a
  rearrangement of the list it is given. A pool of one worker runs the tasks in
  the order of submission. \<open>main\<close> returns the rows it hands to the report; the progress
  messages it prints are left out.
\<close>

definition files_to_search :: "config \<Rightarrow> node \<Rightarrow> path list \<Rightarrow> path list" where
  "files_to_search cfg fs all_files =
     filter (\<lambda>file_path. fst (is_file_searchable cfg fs file_path)) all_files"

definition scan_phase :: "engine \<Rightarrow> config \<Rightarrow> node \<Rightarrow> path list \<Rightarrow> state \<Rightarrow> state" where
  "scan_phase engine cfg fs files st =
     foldl (\<lambda>st file_path. search_file engine cfg fs file_path st) st files"

definition main ::
  "engine \<Rightarrow> config \<Rightarrow> node \<Rightarrow> (path list \<Rightarrow> path list) \<Rightarrow> (path list \<Rightarrow> path list)
     \<Rightarrow> row list" where
  "main engine cfg fs done_filter done_scan =
     (let all_files = concat (map (collect_files cfg fs) (DIRECTORIES_TO_SEARCH cfg));
          searchable = done_filter (files_to_search cfg fs all_files);
          st = scan_phase engine cfg fs (done_scan searchable) \<lparr>results_dict = [], stdout = []\<rparr>
      in write_to_csv (results_dict st))"

subsection \<open>The configuration as shipped\<close>

text \<open>
  Lines 11 to 23 of \<^verbatim>\<open>main.py\<close>; \<^verbatim>\<open>NUM_THREADS\<close> is the fallback value of
  \<^verbatim>\<open>os.cpu_count() or 10\<close>.
\<close>

definition default_config :: config where
  "default_config =
     \<lparr>SEARCH_TERM = ''whatever'',
      DIRECTORIES_TO_SEARCH = [[]],
      EXCLUDE_DIRECTORIES = {},
      INCLUDE_FILE_TYPES = [],
      EXCLUDE_FILE_TYPES = [],
      NUM_THREADS = 10\<rparr>"

subsection \<open>Auxiliary notions for the proofs\<close>

text \<open>The matches \<^verbatim>\<open>search_file\<close> finds in a file: its \<^verbatim>\<open>local_results\<close> after the \<^verbatim>\<open>try\<close> block.\<close>

definition found_in :: "engine \<Rightarrow> config \<Rightarrow> node \<Rightarrow> path \<Rightarrow> match_record list" where
  "found_in engine cfg fs p = fst (local_results engine (SEARCH_TERM cfg) fs p)"

text \<open>
  The invariant of \<^verbatim>\<open>results_dict\<close>: its keys are distinct, and the value of a key is the
  non-empty list \<open>found\<close> gives for that key.
\<close>

definition store_inv :: "(path \<Rightarrow> match_record list) \<Rightarrow> (path \<times> match_record list) list \<Rightarrow> bool" where
  "store_inv found d = (distinct (map fst d) \<and> list_all (\<lambda>(k, v). v = found k \<and> v \<noteq> []) d)"

section \<open>Properties of the line search\<close>












lemma finditer_literal:
  "literal_pattern pat \<Longrightarrow> is_ascii line \<Longrightarrow> finditer engine pat line = Inr (literal_scan pat line)"
  by (simp add: finditer_def)

lemma scan_line_literal:
  "literal_pattern term \<Longrightarrow> is_ascii line \<Longrightarrow>
     scan_line engine term n line
       = Inr (map (\<lambda>pos. (n, int pos, int pos + int (length term))) (literal_scan term line))"
  by (simp add: scan_line_def finditer_literal)

section \<open>Properties of the scanner, the reader and the result store\<close>

subsection \<open>Records of the scanner\<close>

lemma scan_line_records:
  "scan_line engine term n line = Inr records \<Longrightarrow> (ln, s, e) \<in> set records \<Longrightarrow>
     ln = n \<and> 0 \<le> s \<and> e = s + int (length term)"
  by (auto simp: scan_line_def split: sum.splits)

lemma scan_lines_records:
  "(ln, s, e) \<in> set (fst (scan_lines engine term n ls)) \<Longrightarrow>
     n + 1 \<le> ln \<and> 0 \<le> s \<and> e = s + int (length term)"
proof (induction ls arbitrary: n)
  case Nil
  then show ?case by simp
next
  case (Cons l ls)
  show ?case
  proof (cases "scan_line engine term (n + 1) l")
    case (Inl x)
    with Cons.prems show ?thesis by simp
  next
    case (Inr records)
    with Cons.prems
    consider "(ln, s, e) \<in> set records"
      | "(ln, s, e) \<in> set (fst (scan_lines engine term (n + 1) ls))"
      by (auto split: prod.splits)
    then show ?thesis
    proof cases
      case 1
      from scan_line_records [OF Inr 1] show ?thesis by simp
    next
      case 2
      from Cons.IH [OF 2] show ?thesis by simp
    qed
  qed
qed

lemma local_results_fst:
  "open_file fs p = Inr file \<Longrightarrow>
     fst (local_results engine term fs p) = fst (scan_lines engine term 0 (fst (read_lines [] file)))"
  by (simp add: local_results_def split: prod.splits option.splits)

lemma local_results_records:
  assumes "(ln, s, e) \<in> set (fst (local_results engine term fs p))"
  shows "1 \<le> ln \<and> 0 \<le> s \<and> e = s + int (length term)"
proof (cases "open_file fs p")
  case (Inl x)
  with assms show ?thesis by (simp add: local_results_def)
next
  case (Inr cs)
  from assms have "(ln, s, e) \<in> set (fst (scan_lines engine term 0 (fst (read_lines [] cs))))"
    by (simp only: local_results_fst [OF Inr])
  from scan_lines_records [OF this] show ?thesis by simp
qed

lemma scan_lines_literal:
  assumes "literal_pattern term"
  shows "list_all is_ascii ls \<Longrightarrow> snd (scan_lines engine term n ls) = None"
proof (induction ls arbitrary: n)
  case Nil
  then show ?case by simp
next
  case (Cons l ls)
  then have "snd (scan_lines engine term (n + 1) ls) = None" and "is_ascii l"
    by simp_all
  with assms show ?case
    by (cases "scan_lines engine term (n + 1) ls") (simp add: scan_line_literal)
qed

lemma local_results_snd:
  "open_file fs p = Inr file \<Longrightarrow>
     snd (local_results engine term fs p)
       = (case snd (scan_lines engine term 0 (fst (read_lines [] file))) of
            None \<Rightarrow> snd (read_lines [] file)
          | Some e \<Rightarrow> Some e)"
  by (simp add: local_results_def split: prod.splits option.splits)

lemma scan_lines_any_engine:
  assumes "literal_pattern term"
  shows "list_all is_ascii ls \<Longrightarrow>
     scan_lines engine term n ls = scan_lines engine' term n ls"
  using assms by (induction ls arbitrary: n) (simp_all add: scan_line_literal)

lemma local_results_any_engine:
  assumes "literal_pattern term"
    and "\<forall>cs. open_file fs p = Inr cs \<longrightarrow> list_all is_ascii (fst (read_lines [] cs))"
  shows "local_results engine term fs p = local_results unused_engine term fs p"
proof (cases "open_file fs p")
  case (Inl e)
  then show ?thesis by (simp add: local_results_def)
next
  case (Inr cs)
  with assms(2) have "list_all is_ascii (fst (read_lines [] cs))" by simp
  with assms(1) have "scan_lines engine term 0 (fst (read_lines [] cs))
      = scan_lines unused_engine term 0 (fst (read_lines [] cs))"
    by (rule scan_lines_any_engine)
  with Inr show ?thesis
    by (cases "read_lines [] cs") (simp add: local_results_def)
qed

subsection \<open>Text-mode reading\<close>

lemma lines_of_append:
  "lines_of cur (a @ b) =
     (case lines_of cur a of (l1, p1) \<Rightarrow> (case lines_of p1 b of (l2, p2) \<Rightarrow> (l1 @ l2, p2)))"
  by (induction cur a rule: lines_of.induct) (auto split: prod.splits)

lemma read_lines_until_raise:
  "read_lines pending (map Text ts @ Raises e # rest) = (fst (lines_of pending (concat ts)), Some e)"
proof (induction ts arbitrary: pending)
  case Nil
  then show ?case by simp
next
  case (Cons t ts)
  then show ?case
    by (simp add: lines_of_append split: prod.splits)
qed

lemma read_chars_until_raise:
  "length (concat ts) < n \<Longrightarrow> read_chars n (map Text ts @ Raises e # rest) = Inl e"
  by (induction ts arbitrary: n) auto

lemma read_chars_0: "read_chars 0 cs = Inr []"
proof (cases cs)
  case Nil
  then show ?thesis by simp
next
  case (Cons c cs')
  then show ?thesis by (cases c) simp_all
qed

lemma read_chars_enough:
  "n \<le> length (concat ts) \<Longrightarrow> read_chars n (map Text ts @ rest) = Inr (take n (concat ts))"
proof (induction ts arbitrary: n)
  case Nil
  then show ?case by (simp add: read_chars_0)
next
  case (Cons t ts)
  show ?case
  proof (cases "n \<le> length t")
    case True
    then show ?thesis by simp
  next
    case False
    with Cons.prems have "n - length t \<le> length (concat ts)" by simp
    from Cons.IH [OF this] False show ?thesis by simp
  qed
qed

lemma lines_of_no_newline:
  "newline \<notin> set s \<Longrightarrow> lines_of cur s = ([], cur @ s)"
  by (induction cur s rule: lines_of.induct) auto

subsection \<open>The result store\<close>

lemma update_fresh:
  "k \<notin> fst ` set al \<Longrightarrow> AList.update k v al = al @ [(k, v)]"
  by (induction al) auto


lemma store_inv_map_of:
  "store_inv found d \<Longrightarrow> k \<in> fst ` set d \<Longrightarrow> map_of d k = Some (found k)"
  by (induction d) (auto simp: store_inv_def)

lemma store_results_inv:
  assumes "store_inv found d"
  shows "store_inv found (store_results p (found p) d)"
    and "set (store_results p (found p) d) = set d \<union> (if found p = [] then {} else {(p, found p)})"
proof -
  show "store_inv found (store_results p (found p) d)"
  proof (cases "found p = []")
    case True
    with assms show ?thesis by (simp add: store_results_def)
  next
    case ne: False
    show ?thesis
    proof (cases "p \<in> fst ` set d")
      case True
      from store_inv_map_of [OF assms True] have "AList.update p (found p) d = d"
        by (rule update_triv)
      with assms ne show ?thesis by (simp add: store_results_def)
    next
      case False
      with assms ne show ?thesis
        by (auto simp: store_results_def update_fresh store_inv_def)
    qed
  qed
  show "set (store_results p (found p) d) = set d \<union> (if found p = [] then {} else {(p, found p)})"
  proof (cases "found p = []")
    case True
    then show ?thesis by (simp add: store_results_def)
  next
    case ne: False
    show ?thesis
    proof (cases "p \<in> fst ` set d")
      case True
      from store_inv_map_of [OF assms True] have m: "map_of d p = Some (found p)" .
      then have "AList.update p (found p) d = d" by (rule update_triv)
      moreover from m have "(p, found p) \<in> set d" by (rule map_of_SomeD)
      ultimately show ?thesis using ne by (auto simp: store_results_def)
    next
      case False
      with ne show ?thesis by (simp add: store_results_def update_fresh)
    qed
  qed
qed


lemma results_dict_search_file:
  "results_dict (search_file engine cfg fs p st) = store_results p (found_in engine cfg fs p) (results_dict st)"
  by (simp add: search_file_def found_in_def split: prod.splits)

lemma scan_phase_Nil: "scan_phase engine cfg fs [] st = st"
  by (simp add: scan_phase_def)

lemma scan_phase_Cons:
  "scan_phase engine cfg fs (p # ps) st = scan_phase engine cfg fs ps (search_file engine cfg fs p st)"
  by (simp add: scan_phase_def)

lemma scan_phase_append:
  "scan_phase engine cfg fs (xs @ ys) st = scan_phase engine cfg fs ys (scan_phase engine cfg fs xs st)"
  by (simp add: scan_phase_def)

lemma scan_phase_inv:
  "store_inv (found_in engine cfg fs) (results_dict st) \<Longrightarrow>
     store_inv (found_in engine cfg fs) (results_dict (scan_phase engine cfg fs files st))
     \<and> set (results_dict (scan_phase engine cfg fs files st))
         = set (results_dict st) \<union> {(p, found_in engine cfg fs p) | p. p \<in> set files \<and> found_in engine cfg fs p \<noteq> []}"
proof (induction files arbitrary: st)
  case Nil
  then show ?case by (simp add: scan_phase_Nil)
next
  case (Cons p ps)
  let ?st = "search_file engine cfg fs p st"
  from store_results_inv [OF Cons.prems, of p]
  have i: "store_inv (found_in engine cfg fs) (results_dict ?st)"
    and s: "set (results_dict ?st) = set (results_dict st)
        \<union> (if found_in engine cfg fs p = [] then {} else {(p, found_in engine cfg fs p)})"
    by (simp_all only: results_dict_search_file)
  from Cons.IH [OF i] s show ?case
    by (simp only: scan_phase_Cons) auto
qed

lemma store_inv_empty: "store_inv found []"
  by (simp add: store_inv_def)

lemma scan_phase_rows:
  "set (results_dict (scan_phase engine cfg fs files \<lparr>results_dict = [], stdout = []\<rparr>))
     = {(p, found_in engine cfg fs p) | p. p \<in> set files \<and> found_in engine cfg fs p \<noteq> []}"
  using scan_phase_inv [of engine cfg fs "\<lparr>results_dict = [], stdout = []\<rparr>" files]
  by (simp add: store_inv_empty)

lemma scan_phase_distinct:
  "distinct (map fst (results_dict (scan_phase engine cfg fs files \<lparr>results_dict = [], stdout = []\<rparr>)))"
  using scan_phase_inv [of engine cfg fs "\<lparr>results_dict = [], stdout = []\<rparr>" files]
  by (simp add: store_inv_empty store_inv_def)

lemma scan_phase_rescan:
  assumes "store_inv (found_in engine cfg fs) (results_dict st)"
    and "\<forall>p \<in> set ys. found_in engine cfg fs p = [] \<or> p \<in> fst ` set (results_dict st)"
  shows "results_dict (scan_phase engine cfg fs ys st) = results_dict st"
  using assms
proof (induction ys arbitrary: st)
  case Nil
  then show ?case by (simp add: scan_phase_Nil)
next
  case (Cons p ps)
  have "store_results p (found_in engine cfg fs p) (results_dict st) = results_dict st"
  proof (cases "found_in engine cfg fs p = []")
    case True
    then show ?thesis by (simp add: store_results_def)
  next
    case False
    with Cons.prems(2) have "p \<in> fst ` set (results_dict st)" by simp
    from store_inv_map_of [OF Cons.prems(1) this]
    have "AList.update p (found_in engine cfg fs p) (results_dict st) = results_dict st"
      by (rule update_triv)
    with False show ?thesis by (simp add: store_results_def)
  qed
  then have eq: "results_dict (search_file engine cfg fs p st) = results_dict st"
    by (simp add: results_dict_search_file)
  with Cons.prems have "results_dict (scan_phase engine cfg fs ps (search_file engine cfg fs p st))
      = results_dict (search_file engine cfg fs p st)"
    by (intro Cons.IH) simp_all
  with eq show ?case by (simp add: scan_phase_Cons)
qed

lemma main_rows:
  "set (main engine cfg fs f g) =
     {(p, int (length (found_in engine cfg fs p)), found_in engine cfg fs p) | p.
        p \<in> set (g (f (files_to_search cfg fs
               (concat (map (collect_files cfg fs) (DIRECTORIES_TO_SEARCH cfg))))))
        \<and> found_in engine cfg fs p \<noteq> []}"
  by (auto simp: main_def Let_def write_to_csv_def scan_phase_rows image_iff)

lemma main_distinct: "distinct (map fst (main engine cfg fs f g))"
proof -
  have "map fst (write_to_csv d) = map fst d" for d
    by (induction d) (auto simp: write_to_csv_def)
  then show ?thesis
    by (simp add: main_def Let_def scan_phase_distinct)
qed

subsection \<open>Characters of the lines, and stores in place\<close>

lemma lines_of_chars:
  "lines_of cur s = (ls, p) \<Longrightarrow>
     (\<forall>l \<in> set ls. set l \<subseteq> set cur \<union> set s) \<and> set p \<subseteq> set cur \<union> set s"
proof (induction cur s arbitrary: ls p rule: lines_of.induct)
  case (1 cur)
  then show ?case by simp
next
  case (2 cur c s)
  show ?case
  proof (cases "c = newline")
    case True
    obtain ls' p' where r: "lines_of [] s = (ls', p')" by (cases "lines_of [] s")
    from "2.IH"(1) [OF True r] "2.prems" True r show ?thesis by auto
  next
    case False
    from "2.IH"(2) [OF False] "2.prems" False show ?thesis by auto
  qed
qed

lemma lines_of_ascii:
  "is_ascii s \<Longrightarrow> list_all is_ascii (fst (lines_of [] s))"
proof -
  assume a: "is_ascii s"
  obtain ls p where r: "lines_of [] s = (ls, p)" by (cases "lines_of [] s")
  from lines_of_chars [OF r] a have "\<forall>l \<in> set ls. is_ascii l"
    by (auto simp: is_ascii_def list_all_iff)
  with r show ?thesis by (simp add: list_all_iff)
qed

lemma update_in_place:
  "distinct (map fst d) \<Longrightarrow> p \<in> fst ` set d \<Longrightarrow>
     AList.update p m d = map (\<lambda>(k, v). if k = p then (k, m) else (k, v)) d"
proof (induction d)
  case Nil
  then show ?case by simp
next
  case (Cons x d)
  show ?case
  proof (cases "fst x = p")
    case True
    with Cons.prems have "p \<notin> fst ` set d" by auto
    then have "map (\<lambda>(k, v). if k = p then (k, m) else (k, v)) d = d"
      by (induction d) auto
    with True show ?thesis by (cases x) simp
  next
    case False
    with Cons show ?thesis by (cases x) auto
  qed
qed

section \<open>The claims about the line search\<close>







section \<open>Properties of the orchestrator and of the shipped configuration\<close>

lemma default_config_fields:
  "SEARCH_TERM default_config = ''whatever''"
  "DIRECTORIES_TO_SEARCH default_config = [[]]"
  "EXCLUDE_DIRECTORIES default_config = {}"
  "INCLUDE_FILE_TYPES default_config = []"
  "EXCLUDE_FILE_TYPES default_config = []"
  by (simp_all add: default_config_def)

lemma collect_files_NUM_THREADS:
  "collect_files (cfg\<lparr>NUM_THREADS := n\<rparr>) = collect_files cfg"
  by (simp add: collect_files_def fun_eq_iff split: option.splits)

lemma is_file_searchable_NUM_THREADS:
  "is_file_searchable (cfg\<lparr>NUM_THREADS := n\<rparr>) = is_file_searchable cfg"
  by (simp add: is_file_searchable_def fun_eq_iff)

lemma search_file_NUM_THREADS:
  "search_file engine (cfg\<lparr>NUM_THREADS := n\<rparr>) = search_file engine cfg"
  by (simp add: search_file_def fun_eq_iff)

lemma main_NUM_THREADS:
  "main engine (cfg\<lparr>NUM_THREADS := n\<rparr>) fs f g = main engine cfg fs f g"
  by (simp add: main_def files_to_search_def scan_phase_def collect_files_NUM_THREADS
      is_file_searchable_NUM_THREADS search_file_NUM_THREADS)

lemma main_keys:
  assumes "p \<in> fst ` set (main engine cfg fs f g)"
  shows "found_in engine cfg fs p \<noteq> []"
    and "p \<in> set (g (f (files_to_search cfg fs
               (concat (map (collect_files cfg fs) (DIRECTORIES_TO_SEARCH cfg))))))"
  using assms unfolding main_rows by auto

lemma is_file_searchable_decode_error:
  assumes "open_file fs file_path = Inr (map Text ts @ Raises UnicodeDecodeError # rest)"
    and "length (concat ts) < 1024"
  shows "is_file_searchable cfg fs file_path = (False, [])"
  using assms by (simp add: is_file_searchable_def read_chars_until_raise)

lemma scan_lines_whatever:
  "scan_lines engine ''whatever'' 0 [''whatever\<newline>''] = ([(1, 0, 8)], None)"
proof -
  have "literal_pattern ''whatever''" "is_ascii ''whatever\<newline>''"
    "literal_scan ''whatever'' ''whatever\<newline>'' = [0]"
    by code_simp+
  then show ?thesis by (simp add: scan_line_literal)
qed

text \<open>
  A first chunk of 8192 characters, the size of the chunks CPython's text layer reads:
  the line "whatever" and 8183 further characters without a newline.
\<close>

lemma first_chunk_sniff:
  "read_chars 1024 (Text (''whatever\<newline>'' @ replicate 8183 (CHR ''x'')) # cs)
     = Inr (''whatever\<newline>'' @ replicate 1015 (CHR ''x''))"
  by simp

lemma first_chunk_lines:
  "read_lines [] [Text (''whatever\<newline>'' @ replicate 8183 (CHR ''x'')), Raises e]
     = ([''whatever\<newline>''], Some e)"
proof -
  have "newline \<notin> set (replicate 8183 (CHR ''x''))"
    by (simp add: newline_def)
  then have "lines_of [] (replicate 8183 (CHR ''x'')) = ([], replicate 8183 (CHR ''x''))"
    by (simp add: lines_of_no_newline)
  moreover have "lines_of [] ''whatever\<newline>'' = ([''whatever\<newline>''], [])"
    by (simp add: newline_def)
  ultimately have "lines_of [] (''whatever\<newline>'' @ replicate 8183 (CHR ''x''))
      = ([''whatever\<newline>''], replicate 8183 (CHR ''x''))"
    by (simp only: lines_of_append prod.case append_Nil2)
  then show ?thesis
    by (simp only: read_lines.simps prod.case append_Nil2)
qed

lemma first_chunk_found:
  assumes "open_file fs p = Inr [Text (''whatever\<newline>'' @ replicate 8183 (CHR ''x'')), Raises e]"
  shows "local_results engine ''whatever'' fs p = ([(1, 0, 8)], Some e)"
  by (simp only: local_results_def assms sum.case first_chunk_lines prod.case
      scan_lines_whatever option.case)

section \<open>The claims about the scanner's records and about read errors\<close>

text \<open>
  Claim C8, as the code has it. For a non-empty search term, every record the scanner
  makes for a file has a line number of at least 1, a start offset of at least 0, an end
  offset equal to the start plus the length of the term, and an end beyond its start,
  whatever the regular-expression engine finds. Offsets are positions in the list of
  decoded characters of the line.
\<close>

theorem match_record_shape:
  assumes "term \<noteq> []" and "(ln, s, e) \<in> set (fst (local_results engine term fs file_path))"
  shows "1 \<le> ln \<and> 0 \<le> s \<and> e = s + int (length term) \<and> s < e"
  using local_results_records [OF assms(2)] assms(1) by simp

text \<open>
  An instance of C8 as amended: the record of the line "Whatever" for the term
  "whatever".
\<close>

theorem match_record_shape_witness:
  "''whatever'' \<noteq> []
   \<and> (1, 0, 8) \<in> set (fst (local_results unused_engine ''whatever''
                              (Dir [(''a.txt'', File [Text ''Whatever''])]) [''a.txt'']))
   \<and> (1::int) \<le> 1 \<and> (0::int) \<le> 0 \<and> (8::int) = 0 + int (length ''whatever'') \<and> (0::int) < 8"
proof -
  have h1: "''whatever'' \<noteq> []" by simp
  have h2: "(1, 0, 8) \<in> set (fst (local_results unused_engine ''whatever''
                              (Dir [(''a.txt'', File [Text ''Whatever''])]) [''a.txt'']))"
    by code_simp
  from match_record_shape [OF h1 h2] h1 h2 show ?thesis by blast
qed

text \<open>
  Claim C8 as stated fails for the empty search term: \<^verbatim>\<open>re.finditer\<close> yields an empty match
  at every offset, and the record of line 1 at offset 0 has its end equal to its start.
\<close>

theorem match_record_shape_counterexample:
  "(1, 0, 0) \<in> set (fst (local_results unused_engine []
                            (Dir [(''a.txt'', File [Text ''a''])]) [''a.txt'']))"
  by code_simp

text \<open>
  Claim C2, as the code has it. When \<^verbatim>\<open>open\<close> raises, nothing is recorded for the file.
  When a read raises after the chunks \<open>ts\<close> were decoded, the records of the complete lines
  of \<open>ts\<close> stay in \<^verbatim>\<open>local_results\<close> and are stored under the file's path if there is at
  least one. In both cases an error is printed and \<^verbatim>\<open>search_file\<close> returns normally. The
  error printed is that of the read, unless the search of one of these lines raised
  before; for a term of literal ASCII characters and ASCII text the search does not
  raise.
\<close>

theorem read_error_keeps_earlier_matches:
  "(open_file fs file_path = Inl e \<longrightarrow>
      search_file engine cfg fs file_path st =
        \<lparr>results_dict = results_dict st, stdout = stdout st @ [ErrorReading file_path e]\<rparr>)
   \<and> (open_file fs file_path = Inr (map Text ts @ Raises e # rest) \<longrightarrow>
      search_file engine cfg fs file_path st =
        \<lparr>results_dict = store_results file_path
             (fst (scan_lines engine (SEARCH_TERM cfg) 0 (fst (lines_of [] (concat ts)))))
             (results_dict st),
         stdout = stdout st @
           [ErrorReading file_path
              (case snd (scan_lines engine (SEARCH_TERM cfg) 0 (fst (lines_of [] (concat ts)))) of
                 None \<Rightarrow> e
               | Some search_error \<Rightarrow> search_error)]\<rparr>)
   \<and> (open_file fs file_path = Inr (map Text ts @ Raises e # rest)
        \<and> literal_pattern (SEARCH_TERM cfg) \<and> is_ascii (concat ts) \<longrightarrow>
      search_file engine cfg fs file_path st =
        \<lparr>results_dict = store_results file_path
             (fst (scan_lines engine (SEARCH_TERM cfg) 0 (fst (lines_of [] (concat ts)))))
             (results_dict st),
         stdout = stdout st @ [ErrorReading file_path e]\<rparr>)"
proof (intro conjI impI)
  assume "open_file fs file_path = Inl e"
  then show "search_file engine cfg fs file_path st =
        \<lparr>results_dict = results_dict st, stdout = stdout st @ [ErrorReading file_path e]\<rparr>"
    by (simp add: search_file_def local_results_def store_results_def)
next
  assume o: "open_file fs file_path = Inr (map Text ts @ Raises e # rest)"
  let ?scan = "scan_lines engine (SEARCH_TERM cfg) 0 (fst (lines_of [] (concat ts)))"
  have f: "fst (local_results engine (SEARCH_TERM cfg) fs file_path) = fst ?scan"
    by (simp add: local_results_fst [OF o] read_lines_until_raise)
  have s: "snd (local_results engine (SEARCH_TERM cfg) fs file_path)
      = Some (case snd ?scan of None \<Rightarrow> e | Some search_error \<Rightarrow> search_error)"
    by (simp add: local_results_snd [OF o] read_lines_until_raise split: option.splits)
  show general: "search_file engine cfg fs file_path st =
        \<lparr>results_dict = store_results file_path (fst ?scan) (results_dict st),
         stdout = stdout st @
           [ErrorReading file_path
              (case snd ?scan of None \<Rightarrow> e | Some search_error \<Rightarrow> search_error)]\<rparr>"
    using f s by (cases "local_results engine (SEARCH_TERM cfg) fs file_path")
      (simp add: search_file_def)
next
  assume a: "open_file fs file_path = Inr (map Text ts @ Raises e # rest)
        \<and> literal_pattern (SEARCH_TERM cfg) \<and> is_ascii (concat ts)"
  let ?scan = "scan_lines engine (SEARCH_TERM cfg) 0 (fst (lines_of [] (concat ts)))"
  from a have o: "open_file fs file_path = Inr (map Text ts @ Raises e # rest)" by simp
  from a have n: "snd ?scan = None"
    by (simp add: scan_lines_literal lines_of_ascii)
  have f: "fst (local_results engine (SEARCH_TERM cfg) fs file_path) = fst ?scan"
    by (simp add: local_results_fst [OF o] read_lines_until_raise)
  have s: "snd (local_results engine (SEARCH_TERM cfg) fs file_path) = Some e"
    by (simp add: local_results_snd [OF o] read_lines_until_raise n)
  show "search_file engine cfg fs file_path st =
        \<lparr>results_dict = store_results file_path (fst ?scan) (results_dict st),
         stdout = stdout st @ [ErrorReading file_path e]\<rparr>"
    using f s by (cases "local_results engine (SEARCH_TERM cfg) fs file_path")
      (simp add: search_file_def)
qed

text \<open>
  Two instances of C2 as amended: a path that cannot be opened, and a file whose first
  chunk holds the line "Whatever" and the start of a second line, and whose second
  chunk does not decode.
\<close>

theorem read_error_keeps_earlier_matches_witness:
  "open_file (Dir []) [''gone.txt''] = Inl OSError
   \<and> search_file unused_engine default_config (Dir []) [''gone.txt'']
        \<lparr>results_dict = [], stdout = []\<rparr>
       = \<lparr>results_dict = [], stdout = [ErrorReading [''gone.txt''] OSError]\<rparr>
   \<and> open_file (Dir [(''b.dat'', File [Text ''Whatever\<newline>and'', Raises UnicodeDecodeError])])
        [''b.dat'']
       = Inr (map Text [''Whatever\<newline>and''] @ Raises UnicodeDecodeError # [])
   \<and> literal_pattern (SEARCH_TERM default_config)
   \<and> is_ascii (concat [''Whatever\<newline>and''])
   \<and> search_file unused_engine default_config
        (Dir [(''b.dat'', File [Text ''Whatever\<newline>and'', Raises UnicodeDecodeError])])
        [''b.dat''] \<lparr>results_dict = [], stdout = []\<rparr>
       = \<lparr>results_dict = [([''b.dat''], [(1, 0, 8)])],
          stdout = [ErrorReading [''b.dat''] UnicodeDecodeError]\<rparr>"
proof -
  let ?fs = "Dir [(''b.dat'', File [Text ''Whatever\<newline>and'', Raises UnicodeDecodeError])]"
  let ?st = "\<lparr>results_dict = [], stdout = []\<rparr>"
  have h1: "open_file (Dir []) [''gone.txt''] = Inl OSError"
    by (simp add: open_file_def)
  have h2: "open_file ?fs [''b.dat'']
      = Inr (map Text [''Whatever\<newline>and''] @ Raises UnicodeDecodeError # [])"
    by (simp add: open_file_def)
  have h3: "literal_pattern (SEARCH_TERM default_config)" by code_simp
  have h4: "is_ascii (concat [''Whatever\<newline>and''])" by code_simp
  have v: "store_results [''b.dat'']
       (fst (scan_lines unused_engine (SEARCH_TERM default_config) 0
          (fst (lines_of [] (concat [''Whatever\<newline>and'']))))) []
      = [([''b.dat''], [(1, 0, 8)])]"
    by code_simp
  from read_error_keeps_earlier_matches
    [where fs = "Dir []" and file_path = "[''gone.txt'']" and e = OSError
       and engine = unused_engine and cfg = default_config and st = ?st
       and ts = "[]" and rest = "[]"] h1
  have r1: "search_file unused_engine default_config (Dir []) [''gone.txt''] ?st
      = \<lparr>results_dict = [], stdout = [ErrorReading [''gone.txt''] OSError]\<rparr>"
    by simp
  from read_error_keeps_earlier_matches
    [where fs = ?fs and file_path = "[''b.dat'']" and e = UnicodeDecodeError
       and engine = unused_engine and cfg = default_config and st = ?st
       and ts = "[''Whatever\<newline>and'']" and rest = "[]"] h2 h3 h4
  have "search_file unused_engine default_config ?fs [''b.dat''] ?st
      = \<lparr>results_dict = store_results [''b.dat'']
            (fst (scan_lines unused_engine (SEARCH_TERM default_config) 0
               (fst (lines_of [] (concat [''Whatever\<newline>and'']))))) (results_dict ?st),
          stdout = stdout ?st @ [ErrorReading [''b.dat''] UnicodeDecodeError]\<rparr>"
    by blast
  then have r2: "search_file unused_engine default_config ?fs [''b.dat''] ?st
      = \<lparr>results_dict = [([''b.dat''], [(1, 0, 8)])],
          stdout = [ErrorReading [''b.dat''] UnicodeDecodeError]\<rparr>"
    by (simp only: v state.simps append_Nil)
  from h1 r1 h2 h3 h4 r2 show ?thesis by blast
qed

text \<open>
  Claim C2 as stated fails: the first chunk of the file holds the line "whatever", the
  read of the second chunk raises, and the scan records the match of line 1 for the
  file.
\<close>

theorem read_error_counterexample:
  "search_file unused_engine default_config
     (Dir [(''c.log'', File [Text (''whatever\<newline>'' @ replicate 8183 (CHR ''x'')),
                             Raises OSError])])
     [''c.log''] \<lparr>results_dict = [], stdout = []\<rparr>
   = \<lparr>results_dict = [([''c.log''], [(1, 0, 8)])],
      stdout = [ErrorReading [''c.log''] OSError]\<rparr>"
proof -
  let ?cs = "[Text (''whatever\<newline>'' @ replicate 8183 (CHR ''x'')), Raises OSError]"
  have opened: "open_file (Dir [(''c.log'', File ?cs)]) [''c.log''] = Inr ?cs"
    by (simp add: open_file_def)
  have "local_results unused_engine ''whatever'' (Dir [(''c.log'', File ?cs)]) [''c.log'']
      = ([(1, 0, 8)], Some OSError)"
    using opened by (rule first_chunk_found)
  then show ?thesis
    by (simp add: search_file_def default_config_fields store_results_def)
qed

section \<open>The claims about the report\<close>

text \<open>
  Claim C3, as the code has it. With the shipped configuration and a working directory
  that holds the one file a.txt with the lines "foo", "whatever bar" and "WHATEVER", the
  report has exactly one row, for a.txt, with occurrence count 2 and the positions
  (2, 0, 8) and (3, 0, 8): the term starts at offset 0 of both lines and is 8 characters
  long.
\<close>

theorem end_to_end_report:
  "main engine default_config
     (Dir [(''a.txt'', File [Text ''foo\<newline>whatever bar\<newline>WHATEVER\<newline>''])])
     id id
   = [([''a.txt''], 2, [(2, 0, 8), (3, 0, 8)])]"
  by code_simp

text \<open>Claim C3 as stated fails: the positions of the report are not (2,4,13) and (3,0,9).\<close>

theorem end_to_end_counterexample:
  "main unused_engine default_config
     (Dir [(''a.txt'', File [Text ''foo\<newline>whatever bar\<newline>WHATEVER\<newline>''])])
     id id
   \<noteq> [([''a.txt''], 2, [(2, 4, 13), (3, 0, 9)])]"
  by code_simp

text \<open>
  Claim C4, as the code has it. The searchability check decodes the chunks of the file
  one after the other until it has 1024 characters. When the chunk that holds the
  invalid byte sequence is reached before that, because the chunks in front of it
  decode to fewer than 1024 characters (as when it is the first chunk of the file), the
  file is not searchable, the check prints nothing and returns, and the file has no
  row in the report, whatever the order in which the pools complete their tasks. When
  the chunks in front of it decode to 1024 characters or more, the check does not
  reach it: the file is searchable unless a directory or extension rule excludes it.
\<close>

theorem early_invalid_bytes_excluded:
  "(open_file fs file_path = Inr (map Text ts @ Raises UnicodeDecodeError # rest)
      \<and> length (concat ts) < 1024
      \<and> (\<forall>xs. mset (done_filter xs) = mset xs)
      \<and> (\<forall>xs. mset (done_scan xs) = mset xs) \<longrightarrow>
        is_file_searchable cfg fs file_path = (False, [])
        \<and> file_path \<notin> fst ` set (main engine cfg fs done_filter done_scan))
   \<and> (open_file fs file_path = Inr (map Text ts @ rest)
      \<and> 1024 \<le> length (concat ts)
      \<and> \<not> (\<exists>excl_dir \<in> EXCLUDE_DIRECTORIES cfg. is_relative_to file_path excl_dir)
      \<and> (INCLUDE_FILE_TYPES cfg = [] \<or> path_suffix file_path \<in> set (INCLUDE_FILE_TYPES cfg))
      \<and> path_suffix file_path \<notin> set (EXCLUDE_FILE_TYPES cfg) \<longrightarrow>
        is_file_searchable cfg fs file_path = (True, []))"
proof (intro conjI impI)
  assume a: "open_file fs file_path = Inr (map Text ts @ Raises UnicodeDecodeError # rest)
      \<and> length (concat ts) < 1024
      \<and> (\<forall>xs. mset (done_filter xs) = mset xs)
      \<and> (\<forall>xs. mset (done_scan xs) = mset xs)"
  then show no: "is_file_searchable cfg fs file_path = (False, [])"
    by (simp add: is_file_searchable_decode_error)
  show "file_path \<notin> fst ` set (main engine cfg fs done_filter done_scan)"
  proof
    assume "file_path \<in> fst ` set (main engine cfg fs done_filter done_scan)"
    then have "file_path \<in> set (done_scan (done_filter (files_to_search cfg fs
               (concat (map (collect_files cfg fs) (DIRECTORIES_TO_SEARCH cfg))))))"
      by (rule main_keys)
    moreover have "set (done_scan (done_filter xs)) = set xs" for xs
      using a by (metis mset_eq_setD)
    ultimately have "fst (is_file_searchable cfg fs file_path)"
      by (simp add: files_to_search_def)
    with no show False by simp
  qed
next
  assume "open_file fs file_path = Inr (map Text ts @ rest)
      \<and> 1024 \<le> length (concat ts)
      \<and> \<not> (\<exists>excl_dir \<in> EXCLUDE_DIRECTORIES cfg. is_relative_to file_path excl_dir)
      \<and> (INCLUDE_FILE_TYPES cfg = [] \<or> path_suffix file_path \<in> set (INCLUDE_FILE_TYPES cfg))
      \<and> path_suffix file_path \<notin> set (EXCLUDE_FILE_TYPES cfg)"
  then show "is_file_searchable cfg fs file_path = (True, [])"
    by (auto simp: is_file_searchable_def read_chars_enough)
qed

text \<open>
  Two instances of C4 as amended: a file whose first chunk does not decode, next to a
  text file that matches, with the scan tasks completing in reverse order; and a file
  with a first chunk of 1024 characters, which the check finds searchable without
  reading on.
\<close>

theorem early_invalid_bytes_excluded_witness:
  "open_file (Dir [(''a.txt'', File [Text ''whatever'']), (''b.dat'', File [Raises UnicodeDecodeError])])
       [''b.dat'']
     = Inr (map Text [] @ Raises UnicodeDecodeError # [])
   \<and> length (concat ([] :: string list)) < 1024
   \<and> (\<forall>xs :: path list. mset (id xs) = mset xs)
   \<and> (\<forall>xs :: path list. mset (rev xs) = mset xs)
   \<and> is_file_searchable default_config
        (Dir [(''a.txt'', File [Text ''whatever'']), (''b.dat'', File [Raises UnicodeDecodeError])])
        [''b.dat''] = (False, [])
   \<and> [''b.dat''] \<notin> fst ` set (main unused_engine default_config
        (Dir [(''a.txt'', File [Text ''whatever'']), (''b.dat'', File [Raises UnicodeDecodeError])])
        id rev)
   \<and> open_file (Dir [(''c.txt'', File [Text (replicate 1024 (CHR ''c'')), Raises OSError])])
        [''c.txt'']
     = Inr (map Text [replicate 1024 (CHR ''c'')] @ [Raises OSError])
   \<and> 1024 \<le> length (concat [replicate 1024 (CHR ''c'')])
   \<and> EXCLUDE_DIRECTORIES default_config = {}
   \<and> INCLUDE_FILE_TYPES default_config = []
   \<and> EXCLUDE_FILE_TYPES default_config = []
   \<and> is_file_searchable default_config
        (Dir [(''c.txt'', File [Text (replicate 1024 (CHR ''c'')), Raises OSError])])
        [''c.txt''] = (True, [])"
proof -
  let ?fs = "Dir [(''a.txt'', File [Text ''whatever'']), (''b.dat'', File [Raises UnicodeDecodeError])]"
  let ?fs' = "Dir [(''c.txt'', File [Text (replicate 1024 (CHR ''c'')), Raises OSError])]"
  have h1: "open_file ?fs [''b.dat''] = Inr (map Text [] @ Raises UnicodeDecodeError # [])"
    by (simp add: open_file_def)
  have h2: "length (concat ([] :: string list)) < 1024" by simp
  have h3: "\<forall>xs :: path list. mset (id xs) = mset xs" by simp
  have h4: "\<forall>xs :: path list. mset (rev xs) = mset xs" by simp
  have g1: "open_file ?fs' [''c.txt''] = Inr (map Text [replicate 1024 (CHR ''c'')] @ [Raises OSError])"
    by (simp add: open_file_def)
  have g2: "1024 \<le> length (concat [replicate 1024 (CHR ''c'')])" by simp
  have g3: "EXCLUDE_DIRECTORIES default_config = {}" "INCLUDE_FILE_TYPES default_config = []"
    "EXCLUDE_FILE_TYPES default_config = []"
    by (simp_all add: default_config_def)
  from early_invalid_bytes_excluded
    [where fs = ?fs and file_path = "[''b.dat'']" and ts = "[]" and rest = "[]"
       and done_filter = id and done_scan = rev and cfg = default_config
       and engine = unused_engine] h1 h2 h3 h4
  have r1: "is_file_searchable default_config ?fs [''b.dat''] = (False, [])"
    and r2: "[''b.dat''] \<notin> fst ` set (main unused_engine default_config ?fs id rev)"
    by blast+
  from g3 have rules: "\<not> (\<exists>excl_dir \<in> EXCLUDE_DIRECTORIES default_config.
        is_relative_to [''c.txt''] excl_dir)"
    "INCLUDE_FILE_TYPES default_config = []
       \<or> path_suffix [''c.txt''] \<in> set (INCLUDE_FILE_TYPES default_config)"
    "path_suffix [''c.txt''] \<notin> set (EXCLUDE_FILE_TYPES default_config)"
    by simp_all
  from early_invalid_bytes_excluded
    [where fs = ?fs' and file_path = "[''c.txt'']" and ts = "[replicate 1024 (CHR ''c'')]"
       and rest = "[Raises OSError]" and cfg = default_config] g1 g2 rules
  have r3: "is_file_searchable default_config ?fs' [''c.txt''] = (True, [])"
    by blast
  from h1 h2 h3 h4 r1 r2 g1 g2 g3 r3 show ?thesis by blast
qed

text \<open>
  Claim C4 as stated fails: the file holds 8192 characters of text, with the line
  "whatever" first, and then a byte sequence that is invalid in UTF-8. The check reads
  the first chunk only and finds the file searchable; the scan records the match of
  line 1 before the second chunk raises, and the file has a row in the report.
\<close>

theorem late_invalid_bytes_counterexample:
  "fst (is_file_searchable default_config
     (Dir [(''b.dat'', File [Text (''whatever\<newline>'' @ replicate 8183 (CHR ''x'')),
                             Raises UnicodeDecodeError])]) [''b.dat''])
   \<and> main unused_engine default_config
     (Dir [(''b.dat'', File [Text (''whatever\<newline>'' @ replicate 8183 (CHR ''x'')),
                             Raises UnicodeDecodeError])]) id id
     = [([''b.dat''], 1, [(1, 0, 8)])]"
proof -
  let ?cs = "[Text (''whatever\<newline>'' @ replicate 8183 (CHR ''x'')), Raises UnicodeDecodeError]"
  let ?fs = "Dir [(''b.dat'', File ?cs)]"
  have opened: "open_file ?fs [''b.dat''] = Inr ?cs"
    by (simp add: open_file_def)
  have ok: "is_file_searchable default_config ?fs [''b.dat''] = (True, [])"
    by (simp only: is_file_searchable_def default_config_fields opened first_chunk_sniff
        sum.case bex_empty list.set empty_iff if_False simp_thms)
  have all_files: "collect_files default_config ?fs [] = [[''b.dat'']]"
    by (simp add: collect_files_def joinpath_def is_dir_def)
  have found: "local_results unused_engine ''whatever'' ?fs [''b.dat'']
      = ([(1, 0, 8)], Some UnicodeDecodeError)"
    using opened by (rule first_chunk_found)
  have searchable: "files_to_search default_config ?fs [[''b.dat'']] = [[''b.dat'']]"
    by (simp only: files_to_search_def filter.simps ok fst_conv if_True)
  have "search_file unused_engine default_config ?fs [''b.dat'']
        \<lparr>results_dict = [], stdout = []\<rparr>
      = \<lparr>results_dict = store_results [''b.dat''] [(1, 0, 8)] [],
          stdout = [ErrorReading [''b.dat''] UnicodeDecodeError]\<rparr>"
    by (simp only: search_file_def default_config_fields found prod.case option.case
        state.simps append_Nil)
  then have scanned: "search_file unused_engine default_config ?fs [''b.dat'']
        \<lparr>results_dict = [], stdout = []\<rparr>
      = \<lparr>results_dict = [([''b.dat''], [(1, 0, 8)])],
          stdout = [ErrorReading [''b.dat''] UnicodeDecodeError]\<rparr>"
    by (simp add: store_results_def)
  have "main unused_engine default_config ?fs id id
      = write_to_csv [([''b.dat''], [(1, 0, 8)])]"
    by (simp only: main_def Let_def default_config_fields list.map concat.simps append_Nil2
        all_files searchable id_apply scan_phase_def foldl.simps scanned state.simps)
  then have "main unused_engine default_config ?fs id id = [([''b.dat''], 1, [(1, 0, 8)])]"
    by (simp add: write_to_csv_def)
  with ok show ?thesis by simp
qed

text \<open>
  Claim C9. When the matches are not empty, the store operation of \<^verbatim>\<open>search_file\<close> maps
  the path to the matches and keeps every other entry: a path that has an entry keeps
  its place and gets the new value, and a path that has none gets a new entry at the
  end, so that no key is added twice. When the matches are empty the dictionary stays
  as it is. So a file in which the scan finds nothing has no row in the report, and
  every row of the report has a positive occurrence count.
\<close>

theorem store_skips_empty_results:
  "(matches \<noteq> [] \<longrightarrow>
      map_of (store_results file_path matches d) = (map_of d)(file_path \<mapsto> matches)
      \<and> map fst (store_results file_path matches d)
          = (if file_path \<in> fst ` set d then map fst d else map fst d @ [file_path]))
   \<and> (matches \<noteq> [] \<and> distinct (map fst d) \<longrightarrow>
      store_results file_path matches d
        = (if file_path \<in> fst ` set d
           then map (\<lambda>(k, v). if k = file_path then (k, matches) else (k, v)) d
           else d @ [(file_path, matches)]))
   \<and> (matches = [] \<longrightarrow> store_results file_path matches d = d)
   \<and> (fst (local_results engine (SEARCH_TERM cfg) fs p) = [] \<longrightarrow>
        p \<notin> fst ` set (main engine cfg fs done_filter done_scan))
   \<and> (\<forall>(k, occurrence_count, positions) \<in> set (main engine cfg fs done_filter done_scan).
        0 < occurrence_count)"
proof (intro conjI)
  show "matches \<noteq> [] \<longrightarrow>
      map_of (store_results file_path matches d) = (map_of d)(file_path \<mapsto> matches)
      \<and> map fst (store_results file_path matches d)
          = (if file_path \<in> fst ` set d then map fst d else map fst d @ [file_path])"
    by (simp add: store_results_def update_conv' update_keys)
  show "matches \<noteq> [] \<and> distinct (map fst d) \<longrightarrow>
      store_results file_path matches d
        = (if file_path \<in> fst ` set d
           then map (\<lambda>(k, v). if k = file_path then (k, matches) else (k, v)) d
           else d @ [(file_path, matches)])"
    by (simp add: store_results_def update_in_place update_fresh)
  show "matches = [] \<longrightarrow> store_results file_path matches d = d"
    by (simp add: store_results_def)
  show "fst (local_results engine (SEARCH_TERM cfg) fs p) = [] \<longrightarrow>
        p \<notin> fst ` set (main engine cfg fs done_filter done_scan)"
    using main_keys(1) [of p engine cfg fs done_filter done_scan] by (auto simp: found_in_def)
  show "\<forall>(k, occurrence_count, positions) \<in> set (main engine cfg fs done_filter done_scan).
        0 < occurrence_count"
    unfolding main_rows by auto
qed

text \<open>
  An instance of C9: a store over the entry of a path that has one, a store for a path
  that has none, a store of no match, and a run over a directory with a file that
  matches and a file that does not.
\<close>

theorem store_skips_empty_results_witness:
  "[(1, 0, 8)] \<noteq> ([] :: match_record list)
   \<and> distinct (map fst ([([''a.txt''], [(5, 1, 9)]), ([''b.txt''], [(2, 0, 8)])]
                          :: (path \<times> match_record list) list))
   \<and> store_results [''a.txt''] [(1, 0, 8)] [([''a.txt''], [(5, 1, 9)]), ([''b.txt''], [(2, 0, 8)])]
       = [([''a.txt''], [(1, 0, 8)]), ([''b.txt''], [(2, 0, 8)])]
   \<and> store_results [''c.txt''] [(1, 0, 8)] [([''a.txt''], [(5, 1, 9)]), ([''b.txt''], [(2, 0, 8)])]
       = [([''a.txt''], [(5, 1, 9)]), ([''b.txt''], [(2, 0, 8)]), ([''c.txt''], [(1, 0, 8)])]
   \<and> store_results [''z.txt''] [] [([''a.txt''], [(1, 0, 8)])] = [([''a.txt''], [(1, 0, 8)])]
   \<and> fst (local_results unused_engine (SEARCH_TERM default_config)
        (Dir [(''a.txt'', File [Text ''Whatever'']), (''z.txt'', File [Text ''nothing''])])
        [''z.txt'']) = []
   \<and> [''z.txt''] \<notin> fst ` set (main unused_engine default_config
        (Dir [(''a.txt'', File [Text ''Whatever'']), (''z.txt'', File [Text ''nothing''])]) id id)
   \<and> ([''a.txt''], 1, [(1, 0, 8)]) \<in> set (main unused_engine default_config
        (Dir [(''a.txt'', File [Text ''Whatever'']), (''z.txt'', File [Text ''nothing''])]) id id)
   \<and> (0::int) < 1"
proof -
  let ?fs = "Dir [(''a.txt'', File [Text ''Whatever'']), (''z.txt'', File [Text ''nothing''])]"
  let ?d = "[([''a.txt''], [(5, 1, 9)]), ([''b.txt''], [(2, 0, 8)])] :: (path \<times> match_record list) list"
  have h1: "[(1, 0, 8)] \<noteq> ([] :: match_record list)" by simp
  have hd: "distinct (map fst ?d)" by simp
  have h2: "fst (local_results unused_engine (SEARCH_TERM default_config) ?fs [''z.txt'']) = []"
    by code_simp
  have h3: "([''a.txt''], 1, [(1, 0, 8)]) \<in> set (main unused_engine default_config ?fs id id)"
    by code_simp
  note t = store_skips_empty_results [where engine = unused_engine and cfg = default_config
      and fs = ?fs and done_filter = id and done_scan = id and p = "[''z.txt'']"]
  from t [where matches = "[(1, 0, 8)]" and file_path = "[''a.txt'']" and d = ?d] h1 hd
  have "store_results [''a.txt''] [(1, 0, 8)] ?d
      = (if [''a.txt''] \<in> fst ` set ?d
         then map (\<lambda>(k, v). if k = [''a.txt''] then (k, [(1, 0, 8)]) else (k, v)) ?d
         else ?d @ [([''a.txt''], [(1, 0, 8)])])"
    by blast
  then have r1: "store_results [''a.txt''] [(1, 0, 8)] ?d
      = [([''a.txt''], [(1, 0, 8)]), ([''b.txt''], [(2, 0, 8)])]"
    by simp
  from t [where matches = "[(1, 0, 8)]" and file_path = "[''c.txt'']" and d = ?d] h1 hd
  have "store_results [''c.txt''] [(1, 0, 8)] ?d
      = (if [''c.txt''] \<in> fst ` set ?d
         then map (\<lambda>(k, v). if k = [''c.txt''] then (k, [(1, 0, 8)]) else (k, v)) ?d
         else ?d @ [([''c.txt''], [(1, 0, 8)])])"
    by blast
  then have r2: "store_results [''c.txt''] [(1, 0, 8)] ?d
      = [([''a.txt''], [(5, 1, 9)]), ([''b.txt''], [(2, 0, 8)]), ([''c.txt''], [(1, 0, 8)])]"
    by simp
  from t [where matches = "[]" and file_path = "[''z.txt'']" and d = "[([''a.txt''], [(1, 0, 8)])]"]
  have r3: "store_results [''z.txt''] [] [([''a.txt''], [(1, 0, 8)])] = [([''a.txt''], [(1, 0, 8)])]"
    by blast
  from t [where matches = "[]" and file_path = "[]" and d = "[]"] h2
  have r4: "[''z.txt''] \<notin> fst ` set (main unused_engine default_config ?fs id id)"
    by blast
  from t [where matches = "[]" and file_path = "[]" and d = "[]"] h3
  have r5: "(0::int) < 1"
    by blast
  from h1 hd r1 r2 r3 h2 r4 h3 r5 show ?thesis by blast
qed

text \<open>
  Claim C10. The report has at most one row for a path, whatever the order in which the
  pools complete their tasks; the positions of a row are those the scan finds in the
  file of that path, and the count is their number. Scanning files again that were
  scanned before leaves the dictionary as it was, so a path the traversal yields more
  than once shows in the report like a path it yields once.
\<close>

theorem one_row_per_path:
  "distinct (map fst (main engine cfg fs done_filter done_scan))
   \<and> (\<forall>(k, occurrence_count, positions) \<in> set (main engine cfg fs done_filter done_scan).
        positions = fst (local_results engine (SEARCH_TERM cfg) fs k)
        \<and> occurrence_count = int (length positions))
   \<and> (set again \<subseteq> set files \<longrightarrow>
        results_dict (scan_phase engine cfg fs (files @ again) \<lparr>results_dict = [], stdout = []\<rparr>)
        = results_dict (scan_phase engine cfg fs files \<lparr>results_dict = [], stdout = []\<rparr>))"
proof (intro conjI impI)
  show "distinct (map fst (main engine cfg fs done_filter done_scan))"
    by (rule main_distinct)
  show "\<forall>(k, occurrence_count, positions) \<in> set (main engine cfg fs done_filter done_scan).
        positions = fst (local_results engine (SEARCH_TERM cfg) fs k)
        \<and> occurrence_count = int (length positions)"
    unfolding main_rows by (auto simp: found_in_def)
next
  assume sub: "set again \<subseteq> set files"
  let ?st = "scan_phase engine cfg fs files \<lparr>results_dict = [], stdout = []\<rparr>"
  from scan_phase_inv [of engine cfg fs "\<lparr>results_dict = [], stdout = []\<rparr>" files]
  have inv: "store_inv (found_in engine cfg fs) (results_dict ?st)"
    and rows: "set (results_dict ?st)
       = {(p, found_in engine cfg fs p) | p. p \<in> set files \<and> found_in engine cfg fs p \<noteq> []}"
    by (simp_all add: store_inv_empty)
  have "\<forall>p \<in> set again. found_in engine cfg fs p = [] \<or> p \<in> fst ` set (results_dict ?st)"
  proof
    fix p assume "p \<in> set again"
    with sub have "p \<in> set files" by blast
    then show "found_in engine cfg fs p = [] \<or> p \<in> fst ` set (results_dict ?st)"
      unfolding rows by force
  qed
  with inv have "results_dict (scan_phase engine cfg fs again ?st) = results_dict ?st"
    by (rule scan_phase_rescan)
  then show "results_dict (scan_phase engine cfg fs (files @ again)
                 \<lparr>results_dict = [], stdout = []\<rparr>)
        = results_dict ?st"
    by (simp only: scan_phase_append)
qed

text \<open>
  An instance of C10: the roots are the working directory and its subdirectory sub, so
  the traversal yields sub/a.txt twice, and the report has one row for it.
\<close>

theorem one_row_per_path_witness:
  "concat (map (collect_files (default_config\<lparr>DIRECTORIES_TO_SEARCH := [[], [''sub'']]\<rparr>)
                  (Dir [(''sub'', Dir [(''a.txt'', File [Text ''whatever''])])]))
               [[], [''sub'']])
     = [[''sub'', ''a.txt''], [''sub'', ''a.txt'']]
   \<and> main unused_engine (default_config\<lparr>DIRECTORIES_TO_SEARCH := [[], [''sub'']]\<rparr>)
        (Dir [(''sub'', Dir [(''a.txt'', File [Text ''whatever''])])]) id id
     = [([''sub'', ''a.txt''], 1, [(1, 0, 8)])]
   \<and> distinct (map fst (main unused_engine
        (default_config\<lparr>DIRECTORIES_TO_SEARCH := [[], [''sub'']]\<rparr>)
        (Dir [(''sub'', Dir [(''a.txt'', File [Text ''whatever''])])]) id id))
   \<and> [(1, 0, 8)] = fst (local_results unused_engine ''whatever''
        (Dir [(''sub'', Dir [(''a.txt'', File [Text ''whatever''])])]) [''sub'', ''a.txt''])
   \<and> results_dict (scan_phase unused_engine
        (default_config\<lparr>DIRECTORIES_TO_SEARCH := [[], [''sub'']]\<rparr>)
        (Dir [(''sub'', Dir [(''a.txt'', File [Text ''whatever''])])])
        ([[''sub'', ''a.txt'']] @ [[''sub'', ''a.txt'']]) \<lparr>results_dict = [], stdout = []\<rparr>)
     = results_dict (scan_phase unused_engine
        (default_config\<lparr>DIRECTORIES_TO_SEARCH := [[], [''sub'']]\<rparr>)
        (Dir [(''sub'', Dir [(''a.txt'', File [Text ''whatever''])])])
        [[''sub'', ''a.txt'']] \<lparr>results_dict = [], stdout = []\<rparr>)"
proof -
  let ?cfg = "default_config\<lparr>DIRECTORIES_TO_SEARCH := [[], [''sub'']]\<rparr>"
  let ?fs = "Dir [(''sub'', Dir [(''a.txt'', File [Text ''whatever''])])]"
  have st_eq: "SEARCH_TERM ?cfg = ''whatever''"
    by (simp add: default_config_def)
  have c: "concat (map (collect_files ?cfg ?fs) [[], [''sub'']])
      = [[''sub'', ''a.txt''], [''sub'', ''a.txt'']]"
    by code_simp
  have m: "main unused_engine ?cfg ?fs id id = [([''sub'', ''a.txt''], 1, [(1, 0, 8)])]"
    by code_simp
  then have mem: "([''sub'', ''a.txt''], 1, [(1, 0, 8)]) \<in> set (main unused_engine ?cfg ?fs id id)"
    by simp
  have sub: "set [[''sub'', ''a.txt'']] \<subseteq> set [[''sub'', ''a.txt'']]"
    by simp
  note t = one_row_per_path [where engine = unused_engine and cfg = ?cfg and fs = ?fs
      and done_filter = id and done_scan = id
      and files = "[[''sub'', ''a.txt'']]" and again = "[[''sub'', ''a.txt'']]"]
  from t have d: "distinct (map fst (main unused_engine ?cfg ?fs id id))"
    by blast
  from t mem
  have "[(1, 0, 8)] = fst (local_results unused_engine (SEARCH_TERM ?cfg) ?fs [''sub'', ''a.txt''])"
    by blast
  then have v: "[(1, 0, 8)] = fst (local_results unused_engine ''whatever'' ?fs [''sub'', ''a.txt''])"
    by (simp only: st_eq)
  from t sub
  have r: "results_dict (scan_phase unused_engine ?cfg ?fs
              ([[''sub'', ''a.txt'']] @ [[''sub'', ''a.txt'']]) \<lparr>results_dict = [], stdout = []\<rparr>)
      = results_dict (scan_phase unused_engine ?cfg ?fs [[''sub'', ''a.txt'']]
              \<lparr>results_dict = [], stdout = []\<rparr>)"
    by blast
  from c m d v r show ?thesis by blast
qed

section \<open>The claims about the path filter and the worker pools\<close>

text \<open>
  Claim C7. A path that lies under a member of \<^verbatim>\<open>EXCLUDE_DIRECTORIES\<close>, that is, whose
  components begin with all the components of the excluded directory, is not
  searchable, whatever its extension and whatever the file tree holds, and it is not
  among the files that pass the filter.
\<close>

theorem excluded_directory_not_searchable:
  assumes "excl_dir \<in> EXCLUDE_DIRECTORIES cfg" and "strict_prefix excl_dir file_path"
  shows "is_file_searchable cfg fs file_path = (False, [])
         \<and> file_path \<notin> set (files_to_search cfg fs all_files)"
proof -
  from assms have "\<exists>d \<in> EXCLUDE_DIRECTORIES cfg. is_relative_to file_path d"
    by (auto simp: is_relative_to_def strict_prefix_def)
  then have "is_file_searchable cfg fs file_path = (False, [])"
    by (simp add: is_file_searchable_def)
  then show ?thesis by (simp add: files_to_search_def)
qed

text \<open>
  An instance of C7: the directory build is excluded, so build/out.txt does not pass
  the filter; builder/out.txt, whose string begins with the same characters, does.
\<close>

theorem excluded_directory_not_searchable_witness:
  "[''build''] \<in> EXCLUDE_DIRECTORIES (default_config\<lparr>EXCLUDE_DIRECTORIES := {[''build'']}\<rparr>)
   \<and> strict_prefix [''build''] [''build'', ''out.txt'']
   \<and> is_file_searchable (default_config\<lparr>EXCLUDE_DIRECTORIES := {[''build'']}\<rparr>)
        (Dir [(''build'', Dir [(''out.txt'', File [Text ''whatever''])]),
              (''builder'', Dir [(''out.txt'', File [Text ''whatever''])])])
        [''build'', ''out.txt''] = (False, [])
   \<and> files_to_search (default_config\<lparr>EXCLUDE_DIRECTORIES := {[''build'']}\<rparr>)
        (Dir [(''build'', Dir [(''out.txt'', File [Text ''whatever''])]),
              (''builder'', Dir [(''out.txt'', File [Text ''whatever''])])])
        [[''build'', ''out.txt''], [''builder'', ''out.txt'']]
       = [[''builder'', ''out.txt'']]"
proof -
  let ?cfg = "default_config\<lparr>EXCLUDE_DIRECTORIES := {[''build'']}\<rparr>"
  let ?fs = "Dir [(''build'', Dir [(''out.txt'', File [Text ''whatever''])]),
                  (''builder'', Dir [(''out.txt'', File [Text ''whatever''])])]"
  let ?all = "[[''build'', ''out.txt''], [''builder'', ''out.txt'']]"
  have h1: "[''build''] \<in> EXCLUDE_DIRECTORIES ?cfg" by simp
  have h2: "strict_prefix [''build''] [''build'', ''out.txt'']" by simp
  have other: "fst (is_file_searchable ?cfg ?fs [''builder'', ''out.txt''])"
    by (simp add: is_file_searchable_def is_relative_to_def default_config_def open_file_def)
  from excluded_directory_not_searchable [OF h1 h2, of ?fs ?all]
  have no: "is_file_searchable ?cfg ?fs [''build'', ''out.txt''] = (False, [])"
    and out: "[''build'', ''out.txt''] \<notin> set (files_to_search ?cfg ?fs ?all)"
    by blast+
  from out other have "files_to_search ?cfg ?fs ?all = [[''builder'', ''out.txt'']]"
    by (simp add: files_to_search_def split: if_splits)
  with h1 h2 no show ?thesis by blast
qed

text \<open>
  Claim C6. A scan task stores its result in one step under the lock, so a run of the
  scan pool is an order \<open>done_scan\<close> in which the tasks store, a rearrangement of the
  searchable files; a pool of one worker stores in the order of submission. For the
  same searchable files, the rows of the report with a pool of \<open>n\<close> workers are, as a
  set, the rows with one worker, and no path has two rows.
\<close>

theorem pool_size_does_not_change_rows:
  assumes "\<forall>xs. mset (done_scan xs) = mset xs"
  shows "set (main engine (cfg\<lparr>NUM_THREADS := n\<rparr>) fs done_filter done_scan)
           = set (main engine (cfg\<lparr>NUM_THREADS := 1\<rparr>) fs done_filter id)
         \<and> distinct (map fst (main engine (cfg\<lparr>NUM_THREADS := n\<rparr>) fs done_filter done_scan))"
proof -
  have "set (done_scan xs) = set xs" for xs
    using assms by (metis mset_eq_setD)
  then have "set (main engine cfg fs done_filter done_scan)
      = set (main engine cfg fs done_filter id)"
    unfolding main_rows by simp
  then show ?thesis
    by (simp only: main_NUM_THREADS main_distinct simp_thms)
qed

text \<open>
  An instance of C6: two files that match, four workers whose scan tasks store in
  reverse order. The rows come in the other order and are the same rows.
\<close>

theorem pool_size_does_not_change_rows_witness:
  "(\<forall>xs :: path list. mset (rev xs) = mset xs)
   \<and> main unused_engine (default_config\<lparr>NUM_THREADS := 4\<rparr>)
        (Dir [(''a.txt'', File [Text ''whatever'']), (''b.txt'', File [Text ''Whatever''])]) id rev
       = [([''b.txt''], 1, [(1, 0, 8)]), ([''a.txt''], 1, [(1, 0, 8)])]
   \<and> main unused_engine (default_config\<lparr>NUM_THREADS := 1\<rparr>)
        (Dir [(''a.txt'', File [Text ''whatever'']), (''b.txt'', File [Text ''Whatever''])]) id id
       = [([''a.txt''], 1, [(1, 0, 8)]), ([''b.txt''], 1, [(1, 0, 8)])]
   \<and> set (main unused_engine (default_config\<lparr>NUM_THREADS := 4\<rparr>)
        (Dir [(''a.txt'', File [Text ''whatever'']), (''b.txt'', File [Text ''Whatever''])]) id rev)
       = set (main unused_engine (default_config\<lparr>NUM_THREADS := 1\<rparr>)
        (Dir [(''a.txt'', File [Text ''whatever'']), (''b.txt'', File [Text ''Whatever''])]) id id)"
proof -
  let ?fs = "Dir [(''a.txt'', File [Text ''whatever'']), (''b.txt'', File [Text ''Whatever''])]"
  have h: "\<forall>xs :: path list. mset (rev xs) = mset xs" by simp
  have m4: "main unused_engine (default_config\<lparr>NUM_THREADS := 4\<rparr>) ?fs id rev
      = [([''b.txt''], 1, [(1, 0, 8)]), ([''a.txt''], 1, [(1, 0, 8)])]"
    by code_simp
  have m1: "main unused_engine (default_config\<lparr>NUM_THREADS := 1\<rparr>) ?fs id id
      = [([''a.txt''], 1, [(1, 0, 8)]), ([''b.txt''], 1, [(1, 0, 8)])]"
    by code_simp
  from pool_size_does_not_change_rows
    [OF h, where engine = unused_engine and cfg = default_config and n = 4 and fs = ?fs
       and done_filter = id]
  have "set (main unused_engine (default_config\<lparr>NUM_THREADS := 4\<rparr>) ?fs id rev)
      = set (main unused_engine (default_config\<lparr>NUM_THREADS := 1\<rparr>) ?fs id id)"
    by blast
  with h m4 m1 show ?thesis by blast
qed

end
